theory Spec2Isabelle
  imports Complex_Main "HOL-Library.AList" "HOL-Library.Sublist"
begin

section \<open>JavaScript values\<close>

text \<open>
  The services handle untyped run-time data: decoded JSON payloads, the parsed content of
  the storage medium, and arguments whose type the code tests with \<^verbatim>\<open>typeof\<close>.
  A JavaScript number is a double; the code only compares numbers, takes their maximum
  with 0 and serialises them, so a finite double is modelled by the real it denotes and
  the three special values are kept apart.
\<close>

datatype jsnum = Fin real | NaN | PosInf | NegInf

datatype jsval =
    JUndefined
  | JNull
  | JBool bool
  | JNum jsnum
  | JStr string
  | JArr "jsval list"
  | JObj "(string \<times> jsval) list"

text \<open>\<^verbatim>\<open>typeof v\<close> (no function, symbol or bigint occurs in the data).\<close>

fun typeof :: "jsval \<Rightarrow> string" where
  "typeof JUndefined = ''undefined''"
| "typeof JNull = ''object''"
| "typeof (JBool b) = ''boolean''"
| "typeof (JNum n) = ''number''"
| "typeof (JStr s) = ''string''"
| "typeof (JArr xs) = ''object''"
| "typeof (JObj fs) = ''object''"

text \<open>Truthiness, as tested by \<^verbatim>\<open>if (v)\<close>, \<^verbatim>\<open>!v\<close> and \<^verbatim>\<open>v && ...\<close>.\<close>

fun truthy :: "jsval \<Rightarrow> bool" where
  "truthy JUndefined = False"
| "truthy JNull = False"
| "truthy (JBool b) = b"
| "truthy (JNum (Fin r)) = (r \<noteq> 0)"
| "truthy (JNum NaN) = False"
| "truthy (JNum n) = True"
| "truthy (JStr s) = (s \<noteq> [])"
| "truthy (JArr xs) = True"
| "truthy (JObj fs) = True"

text \<open>
  Reading a property: \<^verbatim>\<open>undefined\<close> unless the value is an object that has it. On
  \<^verbatim>\<open>null\<close> and \<^verbatim>\<open>undefined\<close> the read throws a \<^verbatim>\<open>TypeError\<close>, which the callers
  of the progress store test first.
\<close>

fun field :: "jsval \<Rightarrow> string \<Rightarrow> jsval" where
  "field (JObj fs) name = (case map_of fs name of Some v \<Rightarrow> v | None \<Rightarrow> JUndefined)"
| "field v name = JUndefined"

section \<open>The retrying fetcher (xtream.ts, fetchWithRetry)\<close>

text \<open>
  What can be thrown inside \<^verbatim>\<open>fetchWithRetry\<close>: the error the function builds itself for
  a response that is not ok, or a value rejected by \<^verbatim>\<open>fetch\<close> or
  \<^verbatim>\<open>response.json()\<close>, of which the code inspects \<^verbatim>\<open>instanceof Error\<close>
  and \<^verbatim>\<open>name\<close>.
\<close>

datatype thrown =
    HttpError nat
  | Rejection (instanceof_Error: bool) (error_name: string)

text \<open>What \<^verbatim>\<open>response.json()\<close> does: it resolves to the decoded value or rejects.\<close>

datatype body = BodyJson jsval | BodyFails thrown

text \<open>
  One network attempt: \<^verbatim>\<open>fetch\<close> rejects in transport; or the caller has cancelled
  through the signal, and \<^verbatim>\<open>fetch\<close> rejects with the signal's reason (a
  \<^verbatim>\<open>DOMException\<close> named \<^verbatim>\<open>AbortError\<close> after \<^verbatim>\<open>abort()\<close>, the value given after
  \<^verbatim>\<open>abort(reason)\<close>); or \<^verbatim>\<open>fetch\<close> resolves to a response with a status.
\<close>

datatype attempt = FetchRejects thrown | Aborted thrown | Response nat body


text \<open>\<^verbatim>\<open>response.ok\<close>: the status is in the range 200-299.\<close>

definition response_ok :: "nat \<Rightarrow> bool" where
  "response_ok status = (200 \<le> status \<and> status \<le> 299)"

text \<open>
  A request URL: the address \<^verbatim>\<open>${baseUrl}/player_api.php\<close> and the search parameters in
  the order they were appended. The network is a function from the URL and the number of
  requests made before to what the attempt does. Once the caller's signal is aborted,
  every later attempt with it is rejected with the same reason.
\<close>

type_synonym url = "string \<times> (string \<times> string) list"

type_synonym network = "url \<Rightarrow> nat \<Rightarrow> attempt"

record net_log =
  requests :: "url list"
  sleeps :: "int list"

definition retryDelays :: "int list" where
  "retryDelays = [1000, 2000, 5000]"

text \<open>The body of the \<^verbatim>\<open>try\<close> block: the value returned, or the error caught.\<close>

fun try_attempt :: "attempt \<Rightarrow> thrown + jsval" where
  "try_attempt (FetchRejects e) = Inl e"
| "try_attempt (Aborted reason) = Inl reason"
| "try_attempt (Response status b) =
     (if \<not> response_ok status then Inl (HttpError status)
      else case b of BodyJson v \<Rightarrow> Inr v | BodyFails e \<Rightarrow> Inl e)"

text \<open>\<^verbatim>\<open>error instanceof Error && error.name === 'AbortError'\<close>\<close>

fun is_AbortError :: "thrown \<Rightarrow> bool" where
  "is_AbortError (HttpError status) = False"
| "is_AbortError (Rejection inst nm) = (inst \<and> nm = ''AbortError'')"

function fetchWithRetry :: "network \<Rightarrow> url \<Rightarrow> nat \<Rightarrow> net_log \<Rightarrow> (thrown + jsval) \<times> net_log" where
  "fetchWithRetry net u retryCount w =
     (let w1 = w\<lparr>requests := requests w @ [u]\<rparr> in
      case try_attempt (net u (length (requests w))) of
        Inr v \<Rightarrow> (Inr v, w1)
      | Inl error \<Rightarrow>
          if is_AbortError error then (Inl error, w1)
          else if retryCount < length retryDelays then
            fetchWithRetry net u (retryCount + 1)
              (w1\<lparr>sleeps := sleeps w1 @ [retryDelays ! retryCount]\<rparr>)
          else (Inl error, w1))"
  by pat_completeness auto
termination
  by (relation "measure (\<lambda>(net, u, retryCount, w). length retryDelays - retryCount)") auto

declare fetchWithRetry.simps [simp del]

text \<open>The two ways a single attempt can fail, as the \<^verbatim>\<open>catch\<close> block tells them apart.\<close>

definition fails_transiently :: "attempt \<Rightarrow> bool" where
  "fails_transiently a = (case try_attempt a of Inl e \<Rightarrow> \<not> is_AbortError e | Inr v \<Rightarrow> False)"

definition fails_cancelled :: "attempt \<Rightarrow> bool" where
  "fails_cancelled a = (case try_attempt a of Inl e \<Rightarrow> is_AbortError e | Inr v \<Rightarrow> False)"

text \<open>A network that answers every request in the same way (used for concrete runs).\<close>

definition always :: "attempt \<Rightarrow> network" where
  "always a u n = a"

definition no_traffic :: net_log where
  "no_traffic = \<lparr>requests = [], sleeps = []\<rparr>"



section \<open>The response cache (xtream.ts, cleanCache / cacheGet / cacheSet / clearCache)\<close>

record cache_entry =
  data :: jsval
  timestamp :: int
  expiresAt :: int

text \<open>
  \<^verbatim>\<open>Map<string, CacheEntry<any>>\<close>: the entries in insertion order, one per key.
  \<^verbatim>\<open>get\<close> is \<^const>\<open>map_of\<close>, \<^verbatim>\<open>set\<close> is \<^const>\<open>AList.update\<close> (an existing key keeps
  its place) and \<^verbatim>\<open>delete\<close> is \<^const>\<open>AList.delete\<close>. Times are milliseconds as returned
  by \<^verbatim>\<open>Date.now()\<close>.
\<close>

type_synonym cache = "(string \<times> cache_entry) list"

datatype data_kind = epg | movieInfo | streams

fun kind_name :: "data_kind \<Rightarrow> string" where
  "kind_name epg = ''epg''"
| "kind_name movieInfo = ''movieInfo''"
| "kind_name streams = ''streams''"

fun CACHE_DURATION :: "data_kind \<Rightarrow> int" where
  "CACHE_DURATION epg = 5 * 60 * 1000"
| "CACHE_DURATION movieInfo = 30 * 60 * 1000"
| "CACHE_DURATION streams = 10 * 60 * 1000"

text \<open>
  The loop of \<^verbatim>\<open>cleanCache\<close> visits the entries present when it starts; deleting the
  visited entry does not disturb the iteration.
\<close>

fun cleanCache_loop :: "int \<Rightarrow> (string \<times> cache_entry) list \<Rightarrow> cache \<Rightarrow> cache" where
  "cleanCache_loop now [] c = c"
| "cleanCache_loop now ((key, entry) # rest) c =
     cleanCache_loop now rest (if expiresAt entry \<le> now then AList.delete key c else c)"

definition cleanCache :: "int \<Rightarrow> cache \<Rightarrow> cache" where
  "cleanCache now c = cleanCache_loop now c c"

text \<open>\<^verbatim>\<open>cacheGet\<close> returns the payload, or \<^verbatim>\<open>null\<close>, and the cache it leaves behind.\<close>

definition cacheGet :: "string \<Rightarrow> int \<Rightarrow> cache \<Rightarrow> jsval \<times> cache" where
  "cacheGet key now c =
     (case map_of c key of
        None \<Rightarrow> (JNull, c)
      | Some entry \<Rightarrow>
          if expiresAt entry \<le> now then (JNull, AList.delete key c)
          else (data entry, c))"

definition cacheSet :: "string \<Rightarrow> jsval \<Rightarrow> int \<Rightarrow> int \<Rightarrow> cache \<Rightarrow> cache" where
  "cacheSet key payload duration now c =
     AList.update key \<lparr>data = payload, timestamp = now, expiresAt = now + duration\<rparr> c"

fun clearCache_loop :: "string \<Rightarrow> (string \<times> cache_entry) list \<Rightarrow> cache \<Rightarrow> cache" where
  "clearCache_loop type [] c = c"
| "clearCache_loop type ((key, entry) # rest) c =
     clearCache_loop type rest (if prefix type key then AList.delete key c else c)"

definition clearCache :: "data_kind \<Rightarrow> cache \<Rightarrow> cache" where
  "clearCache type c = clearCache_loop (kind_name type) c c"

text \<open>A cache holding one movie-info entry and one EPG entry, both set at time 0.\<close>

definition two_entries :: cache where
  "two_entries =
     cacheSet ''epg_7_24'' (JArr []) 300000 0 (cacheSet ''movie_42'' JNull 1800000 0 [])"

section \<open>The provider client (xtream.ts, getLiveStreams / getEPG / getMovieInfo)\<close>

record XtreamConfig =
  baseUrl :: string
  username :: string
  password :: string

text \<open>
  The client's state: the cache and the registry of pending requests, which maps a key to
  the promise registered under it (promises are identified by numbers).
\<close>

record service =
  cache :: cache
  pendingRequests :: "(string \<times> nat) list"

definition new_service :: service where
  "new_service = \<lparr>cache = [], pendingRequests = []\<rparr>"

text \<open>Decimal rendering of a number, as the template literals and \<^verbatim>\<open>toString()\<close> do.\<close>

fun string_of_nat :: "nat \<Rightarrow> string" where
  "string_of_nat n =
     (if n < 10 then [''0123456789'' ! n]
      else string_of_nat (n div 10) @ [''0123456789'' ! (n mod 10)])"

declare string_of_nat.simps [simp del]

text \<open>
  The cache keys of the three methods. Identifiers are taken in their string form;
  \<^verbatim>\<open>category_id || 'all'\<close> replaces a missing or empty category by \<^verbatim>\<open>'all'\<close>.
\<close>

definition streams_key :: "string option \<Rightarrow> string" where
  "streams_key category_id =
     ''streams_'' @ (case category_id of None \<Rightarrow> ''all'' | Some c \<Rightarrow> if c = [] then ''all'' else c)"

definition epg_key :: "string \<Rightarrow> nat \<Rightarrow> string" where
  "epg_key stream_id limit = ''epg_'' @ stream_id @ ''_'' @ string_of_nat limit"

definition movie_key :: "string \<Rightarrow> string" where
  "movie_key movie_id = ''movie_'' @ movie_id"

text \<open>
  The request URLs, as the address and the parameters appended to \<^verbatim>\<open>searchParams\<close>; the
  configured \<^verbatim>\<open>baseUrl\<close> is taken to be one that \<^verbatim>\<open>new URL\<close> accepts.
\<close>

definition api_url :: "XtreamConfig \<Rightarrow> (string \<times> string) list \<Rightarrow> url" where
  "api_url cfg params =
     (baseUrl cfg @ ''/player_api.php'',
      [(''username'', username cfg), (''password'', password cfg)] @ params)"

definition streams_url :: "XtreamConfig \<Rightarrow> string option \<Rightarrow> url" where
  "streams_url cfg category_id =
     api_url cfg ([(''action'', ''get_live_streams'')] @
       (case category_id of None \<Rightarrow> [] | Some c \<Rightarrow> if c = [] then [] else [(''category_id'', c)]))"

definition epg_url :: "XtreamConfig \<Rightarrow> string \<Rightarrow> nat \<Rightarrow> url" where
  "epg_url cfg stream_id limit =
     api_url cfg [(''action'', ''get_epg''), (''stream_id'', stream_id),
                  (''limit'', string_of_nat limit)]"

definition movie_url :: "XtreamConfig \<Rightarrow> string \<Rightarrow> url" where
  "movie_url cfg movie_id =
     api_url cfg [(''action'', ''get_movie_info''), (''movie_id'', movie_id)]"

text \<open>
  An asynchronous method runs in two parts. The first part runs when the method is called,
  up to the point where it has a result, has picked up a promise that is already pending,
  or has started \<^verbatim>\<open>fetchWithRetry\<close>. The second part runs when that fetch has settled.
  Nothing else runs in the middle of either part.
\<close>

datatype begun = Return jsval | Join nat | Start url

text \<open>
  \<^verbatim>\<open>getLiveStreams\<close>, first part; \<open>request\<close> names the promise created if a fetch is
  started.
\<close>

definition getLiveStreams_begin ::
  "XtreamConfig \<Rightarrow> string option \<Rightarrow> int \<Rightarrow> nat \<Rightarrow> service \<Rightarrow> begun \<times> service" where
  "getLiveStreams_begin cfg category_id now request s =
     (let cacheKey = streams_key category_id;
          (cached, c1) = cacheGet cacheKey now (cache s);
          s1 = s\<lparr>cache := c1\<rparr>
      in if truthy cached then (Return cached, s1)
         else let pendingKey = ''pending_'' @ cacheKey in
           case map_of (pendingRequests s1) pendingKey of
             Some pendingRequest \<Rightarrow> (Join pendingRequest, s1)
           | None \<Rightarrow>
               (Start (streams_url cfg category_id),
                s1\<lparr>pendingRequests := AList.update pendingKey request (pendingRequests s1)\<rparr>))"

text \<open>\<^verbatim>\<open>getLiveStreams\<close>, the \<^verbatim>\<open>then\<close> and \<^verbatim>\<open>catch\<close> handlers of the request.\<close>

definition getLiveStreams_settle ::
  "string option \<Rightarrow> int \<Rightarrow> thrown + jsval \<Rightarrow> service \<Rightarrow> (thrown + jsval) \<times> service" where
  "getLiveStreams_settle category_id now result s =
     (let cacheKey = streams_key category_id;
          pendingKey = ''pending_'' @ cacheKey
      in case result of
           Inr payload \<Rightarrow>
             (Inr payload,
              s\<lparr>cache := cacheSet cacheKey payload (CACHE_DURATION streams) now (cache s),
                pendingRequests := AList.delete pendingKey (pendingRequests s)\<rparr>)
         | Inl error \<Rightarrow>
             (Inl error, s\<lparr>pendingRequests := AList.delete pendingKey (pendingRequests s)\<rparr>))"

definition getEPG_begin ::
  "XtreamConfig \<Rightarrow> string \<Rightarrow> nat \<Rightarrow> int \<Rightarrow> service \<Rightarrow> begun \<times> service" where
  "getEPG_begin cfg stream_id limit now s =
     (let cacheKey = epg_key stream_id limit;
          (cached, c1) = cacheGet cacheKey now (cache s);
          s1 = s\<lparr>cache := c1\<rparr>
      in if truthy cached then (Return cached, s1)
         else (Start (epg_url cfg stream_id limit), s1))"

definition getEPG_settle ::
  "string \<Rightarrow> nat \<Rightarrow> int \<Rightarrow> thrown + jsval \<Rightarrow> service \<Rightarrow> (thrown + jsval) \<times> service" where
  "getEPG_settle stream_id limit now result s =
     (case result of
        Inr payload \<Rightarrow>
          (Inr payload,
           s\<lparr>cache := cacheSet (epg_key stream_id limit) payload (CACHE_DURATION epg) now (cache s)\<rparr>)
      | Inl error \<Rightarrow> (Inl error, s))"

definition getMovieInfo_begin ::
  "XtreamConfig \<Rightarrow> string \<Rightarrow> int \<Rightarrow> service \<Rightarrow> begun \<times> service" where
  "getMovieInfo_begin cfg movie_id now s =
     (let cacheKey = movie_key movie_id;
          (cached, c1) = cacheGet cacheKey now (cache s);
          s1 = s\<lparr>cache := c1\<rparr>
      in if truthy cached then (Return cached, s1)
         else (Start (movie_url cfg movie_id), s1))"

definition getMovieInfo_settle ::
  "string \<Rightarrow> int \<Rightarrow> thrown + jsval \<Rightarrow> service \<Rightarrow> (thrown + jsval) \<times> service" where
  "getMovieInfo_settle movie_id now result s =
     (case result of
        Inr payload \<Rightarrow>
          (Inr payload,
           s\<lparr>cache := cacheSet (movie_key movie_id) payload (CACHE_DURATION movieInfo) now (cache s)\<rparr>)
      | Inl error \<Rightarrow> (Inl error, s))"

subsection \<open>Interleaved calls\<close>

text \<open>
  Execution is single-threaded and event-driven. The events are the calls of the three
  methods by the user interface and the settling of a fetch started earlier; each event
  runs one part of a method to its end. A started fetch is an upstream call; \<open>nets r\<close>
  is what the network does to the attempts of upstream call \<open>r\<close>.
\<close>

datatype operation = LiveStreams "string option" | EPG string nat | MovieInfo string

datatype event = Call nat operation int | Settle nat int

record system =
  svc :: service
  inflight :: "(nat \<times> operation \<times> url) list"
  waiters :: "(nat \<times> nat) list"
  outcomes :: "(nat \<times> (thrown + jsval)) list"
  started :: "url list"
  traffic :: "url list"

definition boot :: system where
  "boot = \<lparr>svc = new_service, inflight = [], waiters = [], outcomes = [], started = [],
            traffic = []\<rparr>"

fun begin_op :: "XtreamConfig \<Rightarrow> operation \<Rightarrow> int \<Rightarrow> nat \<Rightarrow> service \<Rightarrow> begun \<times> service" where
  "begin_op cfg (LiveStreams category_id) now request s =
     getLiveStreams_begin cfg category_id now request s"
| "begin_op cfg (EPG stream_id limit) now request s = getEPG_begin cfg stream_id limit now s"
| "begin_op cfg (MovieInfo movie_id) now request s = getMovieInfo_begin cfg movie_id now s"

fun settle_op :: "operation \<Rightarrow> int \<Rightarrow> thrown + jsval \<Rightarrow> service \<Rightarrow> (thrown + jsval) \<times> service" where
  "settle_op (LiveStreams category_id) now result s = getLiveStreams_settle category_id now result s"
| "settle_op (EPG stream_id limit) now result s = getEPG_settle stream_id limit now result s"
| "settle_op (MovieInfo movie_id) now result s = getMovieInfo_settle movie_id now result s"

text \<open>
  \<open>Call caller op now\<close>: a caller invokes a method at time \<open>now\<close>. It gets the cached
  value at once, or waits for a pending request, or for the upstream call it starts.
  \<open>Settle r now\<close>: upstream call \<open>r\<close> has finished, with the result of
  \<^const>\<open>fetchWithRetry\<close>; the method's second part runs and everyone waiting for \<open>r\<close>
  gets its outcome.
\<close>

fun step :: "XtreamConfig \<Rightarrow> (nat \<Rightarrow> network) \<Rightarrow> event \<Rightarrow> system \<Rightarrow> system" where
  "step cfg nets (Call caller op now) sys =
     (let request = length (started sys) in
      case begin_op cfg op now request (svc sys) of
        (Return cached, s1) \<Rightarrow>
          sys\<lparr>svc := s1, outcomes := outcomes sys @ [(caller, Inr cached)]\<rparr>
      | (Join p, s1) \<Rightarrow>
          sys\<lparr>svc := s1, waiters := waiters sys @ [(caller, p)]\<rparr>
      | (Start u, s1) \<Rightarrow>
          sys\<lparr>svc := s1,
              inflight := inflight sys @ [(request, op, u)],
              waiters := waiters sys @ [(caller, request)],
              started := started sys @ [u]\<rparr>)"
| "step cfg nets (Settle request now) sys =
     (case map_of (inflight sys) request of
        None \<Rightarrow> sys
      | Some (op, u) \<Rightarrow>
          let (result, w) = fetchWithRetry (nets request) u 0 no_traffic;
              (r, s1) = settle_op op now result (svc sys)
          in sys\<lparr>svc := s1,
                 inflight := AList.delete request (inflight sys),
                 waiters := filter (\<lambda>(c, p). p \<noteq> request) (waiters sys),
                 outcomes := outcomes sys @
                   map (\<lambda>(c, p). (c, r)) (filter (\<lambda>(c, p). p = request) (waiters sys)),
                 traffic := traffic sys @ requests w\<rparr>)"

definition run :: "XtreamConfig \<Rightarrow> (nat \<Rightarrow> network) \<Rightarrow> event list \<Rightarrow> system \<Rightarrow> system" where
  "run cfg nets events sys = fold (step cfg nets) events sys"

text \<open>The upstream calls in flight for one method and cache key.\<close>

fun op_key :: "operation \<Rightarrow> string" where
  "op_key (LiveStreams category_id) = streams_key category_id"
| "op_key (EPG stream_id limit) = epg_key stream_id limit"
| "op_key (MovieInfo movie_id) = movie_key movie_id"

definition inflight_for :: "string \<Rightarrow> system \<Rightarrow> nat list" where
  "inflight_for key sys = map fst (filter (\<lambda>(r, op, u). op_key op = key) (inflight sys))"

definition demo_config :: XtreamConfig where
  "demo_config = \<lparr>baseUrl = ''http://tv.example'', username = ''u'', password = ''p''\<rparr>"

subsection \<open>The declared shapes of the payloads\<close>









text \<open>One network for the first upstream call, another for the later ones.\<close>

definition first_then :: "network \<Rightarrow> network \<Rightarrow> nat \<Rightarrow> network" where
  "first_then a b r = (if r = 0 then a else b)"


text \<open>
  What holds of every state reached by calls to \<^verbatim>\<open>getLiveStreams\<close> among the others:
  the upstream calls in flight have distinct numbers, below the number of calls started,
  and each one started by \<^verbatim>\<open>getLiveStreams\<close> is the promise registered under its key.
\<close>

definition registered :: "system \<Rightarrow> bool" where
  "registered sys =
     (distinct (map fst (inflight sys)) \<and>
      (\<forall>r \<in> fst ` set (inflight sys). r < length (started sys)) \<and>
      (\<forall>r category_id u. (r, LiveStreams category_id, u) \<in> set (inflight sys) \<longrightarrow>
         map_of (pendingRequests (svc sys)) (''pending_'' @ streams_key category_id) = Some r))"

section \<open>The progress store (db.ts)\<close>

text \<open>
  The string kept in \<^verbatim>\<open>localStorage\<close> under \<^verbatim>\<open>STORAGE_KEY\<close> is represented by what
  \<^verbatim>\<open>JSON.parse\<close> makes of it: the decoded value, or a text it rejects. Reading the
  medium may throw, and so may writing it (a full or disabled store); a write that throws
  leaves the medium as it was. The methods are modelled one call at a time: a call runs
  from its read of the medium to its write with no other call in between.
\<close>

datatype stored = Json jsval | NotJson string

record storage =
  item :: "stored option"
  getItem_throws :: bool
  setItem_throws :: bool

datatype db_error = Error string | TypeError | StorageFailure

definition MAX_ENTRIES :: nat where
  "MAX_ENTRIES = 100"

fun nullish :: "jsval \<Rightarrow> bool" where
  "nullish JUndefined = True"
| "nullish JNull = True"
| "nullish v = False"

text \<open>
  \<^verbatim>\<open>a === b\<close>. Arrays and objects are compared by identity, and a decoded item is never
  the object it is compared with.
\<close>

fun strict_eq :: "jsval \<Rightarrow> jsval \<Rightarrow> bool" where
  "strict_eq JUndefined JUndefined = True"
| "strict_eq JNull JNull = True"
| "strict_eq (JBool a) (JBool b) = (a = b)"
| "strict_eq (JNum a) (JNum b) = (a = b \<and> a \<noteq> NaN)"
| "strict_eq (JStr a) (JStr b) = (a = b)"
| "strict_eq a b = False"

text \<open>\<^verbatim>\<open>Math.max(0, n)\<close> on a number.\<close>

fun Math_max0 :: "jsnum \<Rightarrow> jsnum" where
  "Math_max0 (Fin r) = Fin (max 0 r)"
| "Math_max0 NaN = NaN"
| "Math_max0 PosInf = PosInf"
| "Math_max0 NegInf = Fin 0"

text \<open>
  The conversion to a number that \<^verbatim>\<open>Math.max\<close> applies to its arguments. How strings,
  arrays and objects convert is left to the parameter \<open>conv\<close>.
\<close>

fun ToNumber :: "(jsval \<Rightarrow> jsnum) \<Rightarrow> jsval \<Rightarrow> jsnum" where
  "ToNumber conv JUndefined = NaN"
| "ToNumber conv JNull = Fin 0"
| "ToNumber conv (JBool b) = Fin (if b then 1 else 0)"
| "ToNumber conv (JNum n) = n"
| "ToNumber conv v = conv v"

text \<open>
  \<^verbatim>\<open>JSON.parse(JSON.stringify(v))\<close>: what is read back after \<open>v\<close> was written. A number
  that is not finite is written as \<^verbatim>\<open>null\<close>, an \<^verbatim>\<open>undefined\<close> array element too, and an
  \<^verbatim>\<open>undefined\<close> property is left out.
\<close>

fun reparse :: "jsval \<Rightarrow> jsval" where
  "reparse (JNum (Fin r)) = JNum (Fin r)"
| "reparse (JNum n) = JNull"
| "reparse (JArr xs) = JArr (map (\<lambda>x. if x = JUndefined then JNull else reparse x) xs)"
| "reparse (JObj fs) =
     JObj (map (\<lambda>kv. (fst kv, reparse (snd kv))) (filter (\<lambda>kv. snd kv \<noteq> JUndefined) fs))"
| "reparse v = v"

text \<open>
  \<^verbatim>\<open>getAll\<close> catches everything: a read that throws, an absent or empty string, a text
  that does not parse and a value that is not an array all give the empty collection.
\<close>

definition getAll :: "storage \<Rightarrow> jsval list" where
  "getAll st =
     (if getItem_throws st then []
      else case item st of
        None \<Rightarrow> []
      | Some (NotJson t) \<Rightarrow> []
      | Some (Json parsed) \<Rightarrow> (case parsed of JArr xs \<Rightarrow> xs | _ \<Rightarrow> []))"

text \<open>The predicate of the \<^verbatim>\<open>filter\<close> in \<^verbatim>\<open>saveAll\<close>.\<close>

definition valid_item :: "jsval \<Rightarrow> bool" where
  "valid_item x =
     (truthy x \<and>
      typeof (field x ''id'') = ''string'' \<and>
      typeof (field x ''position'') = ''number'' \<and>
      typeof (field x ''duration'') = ''number'' \<and>
      typeof (field x ''timestamp'') = ''number'' \<and>
      (strict_eq (field x ''type'') (JStr ''movie'') \<or> strict_eq (field x ''type'') (JStr ''series'')))"

text \<open>
  \<^verbatim>\<open>saveAll\<close> returns the exception it throws, if any, and the medium it leaves;
  \<^verbatim>\<open>slice(-MAX_ENTRIES)\<close> keeps the last \<^verbatim>\<open>MAX_ENTRIES\<close> items.
\<close>

definition saveAll :: "storage \<Rightarrow> jsval \<Rightarrow> db_error option \<times> storage" where
  "saveAll st collection =
     (case collection of
        JArr xs \<Rightarrow>
          (let trimmed = drop (length xs - MAX_ENTRIES) xs;
               validated = filter valid_item trimmed
           in if setItem_throws st then (Some StorageFailure, st)
              else (None, st\<lparr>item := Some (Json (reparse (JArr validated)))\<rparr>))
      | _ \<Rightarrow> (Some (Error ''Invalid data format''), st))"

text \<open>The callback of \<^verbatim>\<open>findIndex\<close> and \<^verbatim>\<open>find\<close>: \<^verbatim>\<open>item.type === type && item.id === id\<close>.\<close>

definition same_key :: "string \<Rightarrow> jsval \<Rightarrow> jsval \<Rightarrow> db_error + bool" where
  "same_key type item_id x =
     (if nullish x then Inl TypeError
      else Inr (strict_eq (field x ''type'') (JStr type) \<and> strict_eq (field x ''id'') item_id))"

text \<open>\<^verbatim>\<open>findIndex\<close>: the index of the first match, \<open>None\<close> for \<^verbatim>\<open>-1\<close>.\<close>

fun findIndex :: "(jsval \<Rightarrow> db_error + bool) \<Rightarrow> jsval list \<Rightarrow> db_error + nat option" where
  "findIndex p [] = Inr None"
| "findIndex p (x # xs) =
     (case p x of
        Inl e \<Rightarrow> Inl e
      | Inr True \<Rightarrow> Inr (Some 0)
      | Inr False \<Rightarrow>
          (case findIndex p xs of
             Inl e \<Rightarrow> Inl e
           | Inr None \<Rightarrow> Inr None
           | Inr (Some i) \<Rightarrow> Inr (Some (Suc i))))"

text \<open>\<^verbatim>\<open>find\<close>: the first match, or \<^verbatim>\<open>undefined\<close>.\<close>

fun find_first :: "(jsval \<Rightarrow> db_error + bool) \<Rightarrow> jsval list \<Rightarrow> db_error + jsval" where
  "find_first p [] = Inr JUndefined"
| "find_first p (x # xs) =
     (case p x of
        Inl e \<Rightarrow> Inl e
      | Inr True \<Rightarrow> Inr x
      | Inr False \<Rightarrow> find_first p xs)"

text \<open>The object literal that \<^verbatim>\<open>saveProgress\<close> pushes; \<open>now\<close> is \<^verbatim>\<open>Date.now()\<close>.\<close>

definition progress_record :: "string \<Rightarrow> jsval \<Rightarrow> jsnum \<Rightarrow> jsnum \<Rightarrow> int \<Rightarrow> jsval" where
  "progress_record type item_id p d now =
     JObj [(''type'', JStr type),
           (''id'', item_id),
           (''position'', JNum p),
           (''duration'', JNum d),
           (''timestamp'', JNum (Fin (real_of_int now)))]"

text \<open>
  \<^verbatim>\<open>saveProgress\<close>; the first case is the one where both \<^verbatim>\<open>typeof\<close> tests find a
  number, and \<^verbatim>\<open>splice(index, 1)\<close> removes the item at \<open>index\<close>.
\<close>

definition saveProgress ::
  "storage \<Rightarrow> int \<Rightarrow> string \<Rightarrow> jsval \<Rightarrow> jsval \<Rightarrow> jsval \<Rightarrow> db_error option \<times> storage" where
  "saveProgress st now type item_id position duration =
     (case (position, duration) of
        (JNum p, JNum d) \<Rightarrow>
          (let collection = getAll st in
           case findIndex (same_key type item_id) collection of
             Inl e \<Rightarrow> (Some e, st)
           | Inr index \<Rightarrow>
               (let removed = (case index of
                                 None \<Rightarrow> collection
                               | Some i \<Rightarrow> take i collection @ drop (Suc i) collection);
                    pushed = removed @
                      [progress_record type item_id (Math_max0 p) (Math_max0 d) now]
                in saveAll st (JArr pushed)))
      | _ \<Rightarrow> (Some (Error ''Invalid position or duration''), st))"

text \<open>The \<^verbatim>\<open>try\<close> block of \<^verbatim>\<open>getProgress\<close>, then the method with its \<^verbatim>\<open>catch\<close>.\<close>

definition getProgress_try ::
  "(jsval \<Rightarrow> jsnum) \<Rightarrow> storage \<Rightarrow> string \<Rightarrow> jsval \<Rightarrow> db_error + jsnum" where
  "getProgress_try conv st type item_id =
     (if \<not> truthy item_id \<or> typeof item_id \<noteq> ''string'' then Inl (Error ''Invalid ID'')
      else case find_first (same_key type item_id) (getAll st) of
        Inl e \<Rightarrow> Inl e
      | Inr entry \<Rightarrow>
          Inr (if truthy entry then Math_max0 (ToNumber conv (field entry ''position''))
               else Fin 0))"

definition getProgress ::
  "(jsval \<Rightarrow> jsnum) \<Rightarrow> storage \<Rightarrow> string \<Rightarrow> jsval \<Rightarrow> db_error + jsnum" where
  "getProgress conv st type item_id =
     (case getProgress_try conv st type item_id of
        Inl error \<Rightarrow> Inr (Fin 0)
      | Inr n \<Rightarrow> Inr n)"

text \<open>The two pass-through methods of the provider client (xtream.ts).\<close>

definition saveWatchProgress ::
  "storage \<Rightarrow> int \<Rightarrow> string \<Rightarrow> jsval \<Rightarrow> jsval \<Rightarrow> jsval \<Rightarrow> db_error option \<times> storage" where
  "saveWatchProgress st now type item_id position duration =
     saveProgress st now type item_id position duration"

definition getWatchProgress ::
  "(jsval \<Rightarrow> jsnum) \<Rightarrow> storage \<Rightarrow> string \<Rightarrow> jsval \<Rightarrow> db_error + jsnum" where
  "getWatchProgress conv st type item_id = getProgress conv st type item_id"

text \<open>An item is a record for the key (\<open>type\<close>, \<open>item_id\<close>): the callback holds of it.\<close>

definition has_key :: "string \<Rightarrow> jsval \<Rightarrow> jsval \<Rightarrow> bool" where
  "has_key type item_id x = (same_key type item_id x = Inr True)"

definition empty_storage :: storage where
  "empty_storage = \<lparr>item = None, getItem_throws = False, setItem_throws = False\<rparr>"

text \<open>A conversion that makes \<^verbatim>\<open>NaN\<close> of every string, array and object (used for concrete runs).\<close>

definition unconvertible :: "jsval \<Rightarrow> jsnum" where
  "unconvertible v = NaN"

text \<open>A medium that refuses every write.\<close>

definition full_storage :: storage where
  "full_storage = \<lparr>item = None, getItem_throws = False, setItem_throws = True\<rparr>"

text \<open>A medium that refuses every read.\<close>

definition unreadable_storage :: storage where
  "unreadable_storage = \<lparr>item = None, getItem_throws = True, setItem_throws = False\<rparr>"

text \<open>A medium holding a record of movie 42 that has no position.\<close>

definition no_position :: storage where
  "no_position = \<lparr>item = Some (Json (JArr [JObj [(''type'', JStr ''movie''), (''id'', JStr ''42'')]])),
      getItem_throws = False, setItem_throws = False\<rparr>"

text \<open>A medium holding a \<^verbatim>\<open>null\<close> item and the record of movie 42.\<close>

definition one_movie :: storage where
  "one_movie = \<lparr>item = Some (Json (JArr [JNull, progress_record ''movie'' (JStr ''42'') (Fin 120) (Fin 3600) 1000])),
      getItem_throws = False, setItem_throws = False\<rparr>"

section \<open>Properties of the retrying fetcher\<close>

lemma fetch_step_retry:
  assumes "fails_transiently (net u (length (requests w)))" "retryCount < length retryDelays"
  shows "fetchWithRetry net u retryCount w =
     fetchWithRetry net u (Suc retryCount)
       (w\<lparr>requests := requests w @ [u], sleeps := sleeps w @ [retryDelays ! retryCount]\<rparr>)"
  using assms
  by (subst fetchWithRetry.simps) (simp add: fails_transiently_def Let_def split: sum.splits)

lemma fetch_step_final:
  assumes "fails_cancelled (net u (length (requests w)))
           \<or> fails_transiently (net u (length (requests w))) \<and> \<not> retryCount < length retryDelays
           \<or> (\<exists>v. try_attempt (net u (length (requests w))) = Inr v)"
  shows "fetchWithRetry net u retryCount w =
     (try_attempt (net u (length (requests w))), w\<lparr>requests := requests w @ [u]\<rparr>)"
  using assms
  by (subst fetchWithRetry.simps)
     (auto simp add: fails_cancelled_def fails_transiently_def Let_def split: sum.splits)

lemma fetch_retries:
  assumes "\<forall>i<k. fails_transiently (net u (length (requests w) + i))"
    and "retryCount + k \<le> length retryDelays"
  shows "fetchWithRetry net u retryCount w =
     fetchWithRetry net u (retryCount + k)
       (w\<lparr>requests := requests w @ replicate k u,
          sleeps := sleeps w @ take k (drop retryCount retryDelays)\<rparr>)"
  using assms
proof (induction k arbitrary: retryCount w)
  case 0
  then show ?case by simp
next
  case (Suc k)
  have first: "fails_transiently (net u (length (requests w)))"
    using Suc.prems(1) by (metis add.right_neutral zero_less_Suc)
  have rc: "retryCount < length retryDelays" using Suc.prems(2) by simp
  let ?w = "w\<lparr>requests := requests w @ [u], sleeps := sleeps w @ [retryDelays ! retryCount]\<rparr>"
  have rest: "\<forall>i<k. fails_transiently (net u (length (requests ?w) + i))"
    using Suc.prems(1) by (auto simp: less_Suc_eq_0_disj)
  have "fetchWithRetry net u retryCount w = fetchWithRetry net u (Suc retryCount) ?w"
    using first rc by (rule fetch_step_retry)
  also have "\<dots> = fetchWithRetry net u (Suc retryCount + k)
       (?w\<lparr>requests := requests ?w @ replicate k u,
          sleeps := sleeps ?w @ take k (drop (Suc retryCount) retryDelays)\<rparr>)"
    using Suc.IH [of ?w "Suc retryCount"] rest Suc.prems(2) by simp
  also have "take (Suc k) (drop retryCount retryDelays)
      = retryDelays ! retryCount # take k (drop (Suc retryCount) retryDelays)"
    using rc by (metis Cons_nth_drop_Suc take_Suc_Cons)
  ultimately show ?case by (simp add: replicate_app_Cons_same)
qed

text \<open>k transient failures, then an attempt that ends the call.\<close>

lemma fetch_retries_then_final:
  assumes tr: "\<forall>i<k. fails_transiently (net u (length (requests w) + i))"
    and k: "k \<le> length retryDelays"
    and fin: "fails_cancelled (net u (length (requests w) + k))
           \<or> fails_transiently (net u (length (requests w) + k)) \<and> k = length retryDelays
           \<or> (\<exists>v. try_attempt (net u (length (requests w) + k)) = Inr v)"
  shows "fetchWithRetry net u 0 w =
     (try_attempt (net u (length (requests w) + k)),
      w\<lparr>requests := requests w @ replicate (Suc k) u, sleeps := sleeps w @ take k retryDelays\<rparr>)"
proof -
  let ?w = "w\<lparr>requests := requests w @ replicate k u, sleeps := sleeps w @ take k (drop 0 retryDelays)\<rparr>"
  have "fetchWithRetry net u 0 w = fetchWithRetry net u (0 + k) ?w"
    using tr k by (intro fetch_retries) simp_all
  moreover have "fetchWithRetry net u k ?w =
     (try_attempt (net u (length (requests ?w))), ?w\<lparr>requests := requests ?w @ [u]\<rparr>)"
    using fin by (intro fetch_step_final) auto
  ultimately show ?thesis by (simp add: replicate_append_same)
qed

text \<open>
  Claim C2. If every attempt fails with an error that is not a cancellation (a transport
  failure, a status outside 200-299, or a body that does not decode), the fetcher makes
  exactly four requests, sleeps 1000, 2000 and 5000 milliseconds between them, and fails
  with the error of the fourth attempt.
\<close>

theorem fetchWithRetry_retry_budget:
  assumes "\<forall>i<4. fails_transiently (net u (length (requests w) + i))"
  shows "fetchWithRetry net u 0 w =
     (try_attempt (net u (length (requests w) + 3)),
      w\<lparr>requests := requests w @ [u, u, u, u], sleeps := sleeps w @ [1000, 2000, 5000]\<rparr>)
    \<and> (\<exists>e. try_attempt (net u (length (requests w) + 3)) = Inl e \<and> \<not> is_AbortError e)"
proof -
  have three: "\<forall>i<3. fails_transiently (net u (length (requests w) + i))"
    using assms by simp
  have last: "fails_transiently (net u (length (requests w) + 3))"
    using assms by simp
  have "fetchWithRetry net u 0 w =
     (try_attempt (net u (length (requests w) + 3)),
      w\<lparr>requests := requests w @ replicate (Suc 3) u, sleeps := sleeps w @ take 3 retryDelays\<rparr>)"
    using three last by (intro fetch_retries_then_final) (simp_all add: retryDelays_def)
  moreover have "\<exists>e. try_attempt (net u (length (requests w) + 3)) = Inl e \<and> \<not> is_AbortError e"
    using last by (cases "try_attempt (net u (length (requests w) + 3))")
                  (simp_all add: fails_transiently_def)
  ultimately show ?thesis
    by (simp add: retryDelays_def numeral_3_eq_3)
qed

theorem fetchWithRetry_retry_budget_witness:
  "fails_transiently (always (Response 503 (BodyJson JNull)) (''http://tv.example/player_api.php'', []) 3)
   \<and> fetchWithRetry (always (Response 503 (BodyJson JNull))) (''http://tv.example/player_api.php'', []) 0 no_traffic =
     (Inl (HttpError 503),
      \<lparr>requests = [(''http://tv.example/player_api.php'', []), (''http://tv.example/player_api.php'', []),
                   (''http://tv.example/player_api.php'', []), (''http://tv.example/player_api.php'', [])],
       sleeps = [1000, 2000, 5000]\<rparr>)"
proof -
  have h: "\<forall>i<4. fails_transiently (always (Response 503 (BodyJson JNull)) (''http://tv.example/player_api.php'', []) (length (requests no_traffic) + i))"
    by (simp add: fails_transiently_def always_def response_ok_def)
  show ?thesis
    using h fetchWithRetry_retry_budget
        [where net = "always (Response 503 (BodyJson JNull))"
           and u = "(''http://tv.example/player_api.php'', [])" and w = no_traffic]
    by (simp add: fails_transiently_def always_def response_ok_def no_traffic_def)
qed




section \<open>Properties of the response cache\<close>

lemma cleanCache_loop_filter:
  "cleanCache_loop now xs c =
     filter (\<lambda>(k, e). \<not> (\<exists>e'. (k, e') \<in> set xs \<and> expiresAt e' \<le> now)) c"
proof (induction xs arbitrary: c)
  case Nil
  then show ?case by simp
next
  case (Cons x xs)
  obtain key entry where x: "x = (key, entry)" by (cases x)
  show ?case
    unfolding x
    by (auto simp add: Cons.IH AList.delete_eq intro!: filter_cong)
qed

lemma distinct_keys_unique:
  "distinct (map fst c) \<Longrightarrow> (k, e) \<in> set c \<Longrightarrow> (k, e') \<in> set c \<Longrightarrow> e = e'"
  by (metis map_of_is_SomeI option.inject)

lemma cleanCache_filter:
  assumes "distinct (map fst c)"
  shows "cleanCache now c = filter (\<lambda>(k, e). \<not> expiresAt e \<le> now) c"
  unfolding cleanCache_def cleanCache_loop_filter
  using assms by (auto intro!: filter_cong dest: distinct_keys_unique)

lemma clearCache_loop_filter:
  "clearCache_loop t xs c = filter (\<lambda>(k, e). \<not> (k \<in> fst ` set xs \<and> prefix t k)) c"
proof (induction xs arbitrary: c)
  case Nil
  then show ?case by simp
next
  case (Cons x xs)
  obtain key entry where x: "x = (key, entry)" by (cases x)
  show ?case
    unfolding x
    by (auto simp add: Cons.IH AList.delete_eq intro!: filter_cong)
qed

lemma clearCache_filter:
  "clearCache kind c = filter (\<lambda>(k, e). \<not> prefix (kind_name kind) k) c"
  unfolding clearCache_def clearCache_loop_filter
  by (force intro!: filter_cong)

lemma map_of_filter_key:
  "map_of (filter (\<lambda>(k, e). P k) c) key = (if P key then map_of c key else None)"
  by (induction c) auto

lemma clearCache_lookup:
  "map_of (clearCache kind c) key = (if prefix (kind_name kind) key then None else map_of c key)"
  by (simp add: clearCache_filter map_of_filter_key)

lemma cacheGet_cacheSet:
  "cacheGet key t (cacheSet key payload ttl since c) =
     (if since + ttl \<le> t then (JNull, AList.delete key (cacheSet key payload ttl since c))
      else (payload, cacheSet key payload ttl since c))"
  by (simp add: cacheGet_def cacheSet_def AList.update_conv')

text \<open>
  Claim C5. A value set under a key with time-to-live \<open>ttl\<close> at time \<open>since\<close> is returned
  as it was set, and the cache left as it is, by a lookup at any time before
  \<open>since + ttl\<close>; a lookup at \<open>since + ttl\<close> or later returns \<^verbatim>\<open>null\<close> and removes the
  entry. The sweep keeps the entries of the cache in their order except exactly those with
  \<open>now \<ge> expiresAt\<close>, the same test (the keys of a \<^verbatim>\<open>Map\<close> are distinct).
\<close>

theorem cache_ttl_and_sweep:
  "(t < since + ttl \<longrightarrow>
      cacheGet key t (cacheSet key payload ttl since c) = (payload, cacheSet key payload ttl since c))
   \<and> (t \<ge> since + ttl \<longrightarrow>
      fst (cacheGet key t (cacheSet key payload ttl since c)) = JNull
      \<and> map_of (snd (cacheGet key t (cacheSet key payload ttl since c))) key = None)
   \<and> (distinct (map fst c) \<longrightarrow>
      cleanCache now c = filter (\<lambda>(k, e). \<not> now \<ge> expiresAt e) c)"
  by (simp add: cacheGet_cacheSet cleanCache_filter AList.delete_conv')


theorem cache_ttl_and_sweep_witness:
  "cacheGet ''epg_7_24'' 299999 (cacheSet ''epg_7_24'' (JArr []) 300000 0 two_entries)
     = (JArr [], cacheSet ''epg_7_24'' (JArr []) 300000 0 two_entries)
   \<and> fst (cacheGet ''epg_7_24'' 300000 (cacheSet ''epg_7_24'' (JArr []) 300000 0 two_entries)) = JNull
   \<and> map_of (snd (cacheGet ''epg_7_24'' 300000 (cacheSet ''epg_7_24'' (JArr []) 300000 0 two_entries))) ''epg_7_24'' = None
   \<and> distinct (map fst two_entries)
   \<and> cleanCache 300000 two_entries = [(''movie_42'', \<lparr>data = JNull, timestamp = 0, expiresAt = 1800000\<rparr>)]"
  using cache_ttl_and_sweep [where t = 299999 and since = 0 and ttl = 300000 and key = "''epg_7_24''"
           and payload = "JArr []" and c = two_entries and now = 300000]
        cache_ttl_and_sweep [where t = 300000 and since = 0 and ttl = 300000 and key = "''epg_7_24''"
           and payload = "JArr []" and c = two_entries and now = 300000]
  by (simp add: two_entries_def cacheSet_def)

text \<open>
  Claim C4, at the input where the code departs from it. The movie-info entries are stored
  under keys that start with \<^verbatim>\<open>movie_\<close>, and \<^verbatim>\<open>clearCache('movieInfo')\<close> deletes the
  keys that start with \<^verbatim>\<open>movieInfo\<close>: the entry that \<^verbatim>\<open>getMovieInfo\<close> cached for movie 42
  is still there after the call, and is still served.
\<close>

theorem clearCache_movieInfo_misses:
  "map_of (clearCache movieInfo (cacheSet (movie_key ''42'') (JStr ''info'') (CACHE_DURATION movieInfo) 0 []))
       (movie_key ''42'')
     = Some \<lparr>data = JStr ''info'', timestamp = 0, expiresAt = 1800000\<rparr>
   \<and> fst (cacheGet (movie_key ''42'') 1
        (clearCache movieInfo (cacheSet (movie_key ''42'') (JStr ''info'') (CACHE_DURATION movieInfo) 0 [])))
     = JStr ''info''"
  by (simp add: clearCache_lookup cacheGet_def cacheSet_def movie_key_def)

lemma clearCache_epg_streams:
  "map_of (clearCache epg c) (epg_key stream_id limit) = None"
  "map_of (clearCache streams c) (streams_key category_id) = None"
  by (simp_all add: clearCache_lookup epg_key_def streams_key_def)

lemma clearCache_keeps_other_kinds:
  "map_of (clearCache epg c) (streams_key category_id) = map_of c (streams_key category_id)"
  "map_of (clearCache epg c) (movie_key movie_id) = map_of c (movie_key movie_id)"
  "map_of (clearCache streams c) (epg_key stream_id limit) = map_of c (epg_key stream_id limit)"
  "map_of (clearCache streams c) (movie_key movie_id) = map_of c (movie_key movie_id)"
  "map_of (clearCache movieInfo c) (epg_key stream_id limit) = map_of c (epg_key stream_id limit)"
  "map_of (clearCache movieInfo c) (streams_key category_id) = map_of c (streams_key category_id)"
  by (simp_all add: clearCache_lookup epg_key_def streams_key_def movie_key_def)

lemma clearCache_movieInfo_keeps_all_movie:
  "map_of (clearCache movieInfo c) (movie_key movie_id) = map_of c (movie_key movie_id)"
  by (simp_all add: clearCache_lookup epg_key_def streams_key_def movie_key_def)

section \<open>Properties of the provider client\<close>

lemma getLiveStreams_begin_cases:
  assumes "getLiveStreams_begin cfg c now request s = (b, s')"
  shows "(\<exists>v. b = Return v \<and> pendingRequests s' = pendingRequests s) \<or>
     (\<exists>p. b = Join p \<and> pendingRequests s' = pendingRequests s) \<or>
     (\<exists>u. b = Start u \<and> map_of (pendingRequests s) (''pending_'' @ streams_key c) = None \<and>
        pendingRequests s' =
          AList.update (''pending_'' @ streams_key c) request (pendingRequests s))"
  using assms
  by (auto simp: getLiveStreams_begin_def Let_def split: prod.splits if_splits option.splits)

lemma getEPG_begin_cases:
  assumes "getEPG_begin cfg stream_id limit now s = (b, s')"
  shows "pendingRequests s' = pendingRequests s \<and> (\<forall>p. b \<noteq> Join p)"
  using assms
  by (auto simp: getEPG_begin_def Let_def split: prod.splits if_splits)

lemma getMovieInfo_begin_cases:
  assumes "getMovieInfo_begin cfg movie_id now s = (b, s')"
  shows "pendingRequests s' = pendingRequests s \<and> (\<forall>p. b \<noteq> Join p)"
  using assms
  by (auto simp: getMovieInfo_begin_def Let_def split: prod.splits if_splits)

text \<open>What the first part of a method does to the registry.\<close>

lemma begin_op_registry:
  assumes "begin_op cfg op now request s = (b, s')"
  shows "(case b of
            Start u \<Rightarrow>
              (case op of
                 LiveStreams c \<Rightarrow>
                   map_of (pendingRequests s) (''pending_'' @ streams_key c) = None \<and>
                   pendingRequests s' =
                     AList.update (''pending_'' @ streams_key c) request (pendingRequests s)
               | _ \<Rightarrow> pendingRequests s' = pendingRequests s)
          | _ \<Rightarrow> pendingRequests s' = pendingRequests s)"
proof (cases op)
  case (LiveStreams c)
  then show ?thesis
    using getLiveStreams_begin_cases [of cfg c now request s b s'] assms by auto
next
  case (EPG stream_id limit)
  then show ?thesis
    using getEPG_begin_cases [of cfg stream_id limit now s b s'] assms
    by (auto split: begun.splits)
next
  case (MovieInfo movie_id)
  then show ?thesis
    using getMovieInfo_begin_cases [of cfg movie_id now s b s'] assms
    by (auto split: begun.splits)
qed

lemma settle_op_registry:
  assumes "settle_op op now result s = (r, s')"
  shows "pendingRequests s' =
     (case op of
        LiveStreams c \<Rightarrow> AList.delete (''pending_'' @ streams_key c) (pendingRequests s)
      | _ \<Rightarrow> pendingRequests s)"
  using assms
  by (cases op)
     (auto simp: getLiveStreams_settle_def getEPG_settle_def getMovieInfo_settle_def Let_def
           split: sum.splits)

lemma registered_pending:
  "registered sys \<Longrightarrow> (r, LiveStreams c, u) \<in> set (inflight sys) \<Longrightarrow>
     map_of (pendingRequests (svc sys)) (''pending_'' @ streams_key c) = Some r"
  unfolding registered_def by blast

lemma registered_distinct: "registered sys \<Longrightarrow> distinct (map fst (inflight sys))"
  unfolding registered_def by blast

lemma registered_bound:
  "registered sys \<Longrightarrow> r \<in> fst ` set (inflight sys) \<Longrightarrow> r < length (started sys)"
  unfolding registered_def by blast

lemma registeredI:
  assumes "distinct (map fst (inflight sys))"
    and "\<And>r. r \<in> fst ` set (inflight sys) \<Longrightarrow> r < length (started sys)"
    and "\<And>r c u. (r, LiveStreams c, u) \<in> set (inflight sys) \<Longrightarrow>
           map_of (pendingRequests (svc sys)) (''pending_'' @ streams_key c) = Some r"
  shows "registered sys"
  unfolding registered_def using assms by blast

lemma registered_boot: "registered boot"
  by (simp add: registered_def boot_def)

lemma registered_Call:
  assumes inv: "registered sys"
  shows "registered (step cfg nets (Call caller op now) sys)"
proof -
  obtain b s' where beg: "begin_op cfg op now (length (started sys)) (svc sys) = (b, s')"
    by (cases "begin_op cfg op now (length (started sys)) (svc sys)")
  note reg = begin_op_registry [OF beg]
  show ?thesis
  proof (cases b)
    case (Return v)
    then show ?thesis using inv beg reg by (simp add: registered_def)
  next
    case (Join p)
    then show ?thesis using inv beg reg by (simp add: registered_def)
  next
    case (Start u)
    let ?r = "length (started sys)"
    have fresh: "?r \<notin> fst ` set (inflight sys)"
      using registered_bound [OF inv] by blast
    have step_eq: "step cfg nets (Call caller op now) sys =
        sys\<lparr>svc := s', inflight := inflight sys @ [(?r, op, u)],
            waiters := waiters sys @ [(caller, ?r)], started := started sys @ [u]\<rparr>"
      using beg Start by (simp add: Let_def)
    have d: "distinct (map fst (inflight sys @ [(?r, op, u)]))"
      using registered_distinct [OF inv] fresh by simp
    have b: "r < length (started sys @ [u])"
      if "r \<in> fst ` set (inflight sys @ [(?r, op, u)])" for r
    proof (cases "r \<in> fst ` set (inflight sys)")
      case True
      then show ?thesis using registered_bound [OF inv, of r] by simp
    next
      case False
      then have "r = ?r" using that by auto
      then show ?thesis by simp
    qed
    have p: "map_of (pendingRequests s') (''pending_'' @ streams_key c) = Some r"
      if mem: "(r, LiveStreams c, v) \<in> set (inflight sys @ [(?r, op, u)])" for r c v
    proof (cases "(r, LiveStreams c, v) \<in> set (inflight sys)")
      case True
      then have old: "map_of (pendingRequests (svc sys)) (''pending_'' @ streams_key c) = Some r"
        by (rule registered_pending [OF inv])
      show ?thesis
      proof (cases op)
        case (LiveStreams c')
        then have "map_of (pendingRequests (svc sys)) (''pending_'' @ streams_key c') = None"
          and "pendingRequests s' =
                 AList.update (''pending_'' @ streams_key c') ?r (pendingRequests (svc sys))"
          using reg Start by simp_all
        then show ?thesis using old by (auto simp: update_conv')
      next
        case (EPG stream_id limit)
        then show ?thesis using reg Start old by simp
      next
        case (MovieInfo movie_id)
        then show ?thesis using reg Start old by simp
      qed
    next
      case False
      then have new: "r = ?r" "op = LiveStreams c" using mem by auto
      then show ?thesis using reg Start by (simp add: update_conv')
    qed
    show ?thesis
      unfolding step_eq
      by (rule registeredI) (use d b p in simp_all)
  qed
qed

lemma registered_Settle:
  assumes inv: "registered sys"
  shows "registered (step cfg nets (Settle r now) sys)"
proof (cases "map_of (inflight sys) r")
  case None
  then show ?thesis using inv by simp
next
  case (Some opu)
  obtain op u where opu: "opu = (op, u)" by (cases opu)
  obtain result w where f: "fetchWithRetry (nets r) u 0 no_traffic = (result, w)"
    by (cases "fetchWithRetry (nets r) u 0 no_traffic")
  obtain res s' where st: "settle_op op now result (svc sys) = (res, s')"
    by (cases "settle_op op now result (svc sys)")
  note reg = settle_op_registry [OF st]
  have step_eq: "step cfg nets (Settle r now) sys =
      sys\<lparr>svc := s', inflight := AList.delete r (inflight sys),
          waiters := filter (\<lambda>(c, p). p \<noteq> r) (waiters sys),
          outcomes := outcomes sys @
            map (\<lambda>(c, p). (c, res)) (filter (\<lambda>(c, p). p = r) (waiters sys)),
          traffic := traffic sys @ requests w\<rparr>"
    using Some opu f st by (simp add: Let_def)
  have mem_r: "(r, op, u) \<in> set (inflight sys)"
    using Some opu by (simp add: map_of_SomeD)
  have d: "distinct (map fst (AList.delete r (inflight sys)))"
    using registered_distinct [OF inv] by (simp add: distinct_delete)
  have b: "q < length (started sys)"
    if "q \<in> fst ` set (AList.delete r (inflight sys))" for q
  proof -
    have "q \<in> fst ` set (inflight sys)"
      using that by (auto simp: AList.delete_eq)
    then show ?thesis by (rule registered_bound [OF inv])
  qed
  have p: "map_of (pendingRequests s') (''pending_'' @ streams_key c) = Some q"
    if mem: "(q, LiveStreams c, v) \<in> set (AList.delete r (inflight sys))" for q c v
  proof -
    have old_mem: "(q, LiveStreams c, v) \<in> set (inflight sys)" and neq: "q \<noteq> r"
      using mem by (auto simp: AList.delete_eq)
    have old: "map_of (pendingRequests (svc sys)) (''pending_'' @ streams_key c) = Some q"
      using inv old_mem by (rule registered_pending)
    show ?thesis
    proof (cases op)
      case (LiveStreams c')
      then have "map_of (pendingRequests (svc sys)) (''pending_'' @ streams_key c') = Some r"
        using registered_pending [OF inv, of r c' u] mem_r by simp
      then have "streams_key c' \<noteq> streams_key c" using old neq by auto
      then show ?thesis using reg LiveStreams old by (simp add: delete_conv')
    next
      case (EPG stream_id limit)
      then show ?thesis using reg old by simp
    next
      case (MovieInfo movie_id)
      then show ?thesis using reg old by simp
    qed
  qed
  show ?thesis
    unfolding step_eq
    by (rule registeredI) (use d b p in simp_all)
qed

lemma registered_step: "registered sys \<Longrightarrow> registered (step cfg nets ev sys)"
  by (cases ev) (simp_all only: registered_Call registered_Settle)

lemma registered_run: "registered sys \<Longrightarrow> registered (run cfg nets events sys)"
  unfolding run_def
  by (induction events arbitrary: sys) (simp_all add: registered_step)

lemma streams_key_only:
  "op_key op = streams_key c \<Longrightarrow> \<exists>c'. op = LiveStreams c'"
  by (cases op) (simp_all add: streams_key_def epg_key_def movie_key_def)

lemma at_most_one:
  assumes "distinct (map fst xs)"
    and "\<And>x y. x \<in> set xs \<Longrightarrow> y \<in> set xs \<Longrightarrow> P x \<Longrightarrow> P y \<Longrightarrow> fst x = fst y"
  shows "length (filter P xs) \<le> 1"
  using assms
proof (induction xs)
  case Nil
  then show ?case by simp
next
  case (Cons x xs)
  have d: "distinct (map fst xs)" and nx: "fst x \<notin> fst ` set xs"
    using Cons.prems(1) by simp_all
  have ih: "length (filter P xs) \<le> 1"
  proof (rule Cons.IH [OF d])
    fix a b assume "a \<in> set xs" "b \<in> set xs" "P a" "P b"
    then show "fst a = fst b" using Cons.prems(2) [of a b] by simp
  qed
  show ?case
  proof (cases "P x")
    case True
    have "\<not> P y" if y: "y \<in> set xs" for y
    proof
      assume "P y"
      then have "fst x = fst y" using Cons.prems(2) [of x y] True y by simp
      then show False using nx y by (metis imageI)
    qed
    then have "filter P xs = []" by (simp add: filter_empty_conv)
    then show ?thesis using True by simp
  next
    case False
    then show ?thesis using ih by simp
  qed
qed

text \<open>
  In every state reached from the start, whatever the calls and their order, at most one
  upstream call of \<^verbatim>\<open>getLiveStreams\<close> is in flight for a key.
\<close>

lemma getLiveStreams_single_flight:
  "length (inflight_for (streams_key c) (run cfg nets events boot)) \<le> 1"
proof -
  let ?sys = "run cfg nets events boot"
  have inv: "registered ?sys"
    by (rule registered_run [OF registered_boot])
  have same: "fst x = fst y"
    if xin: "x \<in> set (inflight ?sys)" and yin: "y \<in> set (inflight ?sys)"
      and xk: "op_key (fst (snd x)) = streams_key c"
      and yk: "op_key (fst (snd y)) = streams_key c" for x y
  proof -
    obtain r op u where x: "x = (r, op, u)" by (cases x)
    obtain r' op' u' where y: "y = (r', op', u')" by (cases y)
    obtain a where a: "op = LiveStreams a" using xk x streams_key_only by auto
    obtain b where b: "op' = LiveStreams b" using yk y streams_key_only by auto
    have "map_of (pendingRequests (svc ?sys)) (''pending_'' @ streams_key a) = Some r"
      using registered_pending [OF inv, of r a u] xin x a by simp
    moreover have "map_of (pendingRequests (svc ?sys)) (''pending_'' @ streams_key b) = Some r'"
      using registered_pending [OF inv, of r' b u'] yin y b by simp
    moreover have "streams_key a = streams_key b"
      using xk yk x y a b by simp
    ultimately show ?thesis using x y by simp
  qed
  have "length (filter (\<lambda>(r, op, u). op_key op = streams_key c) (inflight ?sys)) \<le> 1"
  proof (rule at_most_one [OF registered_distinct [OF inv]])
    fix x y :: "nat \<times> operation \<times> url"
    assume "x \<in> set (inflight ?sys)" "y \<in> set (inflight ?sys)"
      "case x of (r, op, u) \<Rightarrow> op_key op = streams_key c"
      "case y of (r, op, u) \<Rightarrow> op_key op = streams_key c"
    then show "fst x = fst y"
      using same [of x y] by (simp add: case_prod_beta)
  qed
  then show ?thesis by (simp add: inflight_for_def)
qed

lemma key_simps:
  "epg_key ''7'' 24 = ''epg_7_24''"
  "movie_key ''42'' = ''movie_42''"
  "streams_key None = ''streams_all''"
  by (simp_all add: epg_key_def movie_key_def streams_key_def string_of_nat.simps)



lemma step_Settle:
  assumes "map_of (inflight sys) r = Some (op, u)"
    and "fetchWithRetry (nets r) u 0 no_traffic = (result, w)"
  shows "step cfg nets (Settle r now) sys =
      sys\<lparr>svc := snd (settle_op op now result (svc sys)),
          inflight := AList.delete r (inflight sys),
          waiters := filter (\<lambda>(c, p). p \<noteq> r) (waiters sys),
          outcomes := outcomes sys @
            map (\<lambda>(c, p). (c, fst (settle_op op now result (svc sys))))
              (filter (\<lambda>(c, p). p = r) (waiters sys)),
          traffic := traffic sys @ requests w\<rparr>"
  using assms by (simp add: Let_def case_prod_beta)

lemma fetch_first_ok:
  assumes "response_ok status" and "net u (length (requests w)) = Response status (BodyJson v)"
  shows "fetchWithRetry net u 0 w = (Inr v, w\<lparr>requests := requests w @ [u]\<rparr>)"
  using assms fetch_step_final [of net u w 0] by simp


lemma fetch_ok_empty:
  "fetchWithRetry (always (Response 200 (BodyJson v))) u 0 no_traffic =
     (Inr v, no_traffic\<lparr>requests := [u]\<rparr>)"
  using fetch_first_ok [of 200 "always (Response 200 (BodyJson v))" u no_traffic v]
  by (simp add: always_def response_ok_def no_traffic_def)

lemma fetch_503:
  "fetchWithRetry (always (Response 503 (BodyJson v))) u 0 no_traffic =
     (Inl (HttpError 503), no_traffic\<lparr>requests := [u, u, u, u], sleeps := [1000, 2000, 5000]\<rparr>)"
  using fetch_retries_then_final [of 3 "always (Response 503 (BodyJson v))" u no_traffic]
  by (simp add: always_def response_ok_def no_traffic_def fails_transiently_def retryDelays_def
        numeral_3_eq_3)

lemma run_Cons: "run cfg nets (e # es) sys = run cfg nets es (step cfg nets e sys)"
  by (simp add: run_def)

lemma run_Nil: "run cfg nets [] sys = sys"
  by (simp add: run_def)

text \<open>A caller of getLiveStreams that finds a request pending for its key joins it.\<close>

lemma getLiveStreams_joins:
  assumes inv: "registered sys"
    and pending: "(r, LiveStreams c, u) \<in> set (inflight sys)"
    and same: "streams_key c' = streams_key c"
    and miss: "\<not> truthy (fst (cacheGet (streams_key c) now (cache (svc sys))))"
  shows "started (step cfg nets (Call caller (LiveStreams c') now) sys) = started sys
     \<and> inflight (step cfg nets (Call caller (LiveStreams c') now) sys) = inflight sys
     \<and> waiters (step cfg nets (Call caller (LiveStreams c') now) sys) = waiters sys @ [(caller, r)]"
proof -
  have reg: "map_of (pendingRequests (svc sys)) (''pending_'' @ streams_key c) = Some r"
    using inv pending by (rule registered_pending)
  obtain v c1 where cg: "cacheGet (streams_key c) now (cache (svc sys)) = (v, c1)"
    by (cases "cacheGet (streams_key c) now (cache (svc sys))")
  have "getLiveStreams_begin cfg c' now (length (started sys)) (svc sys) =
      (Join r, (svc sys)\<lparr>cache := c1\<rparr>)"
    using reg cg miss same by (simp add: getLiveStreams_begin_def Let_def)
  then show ?thesis by (simp add: Let_def)
qed

text \<open>When the request settles, all its waiters receive the one outcome.\<close>

lemma settle_delivers_to_all:
  assumes "map_of (inflight sys) r = Some (op, u)"
  shows "\<exists>outcome. outcomes (step cfg nets (Settle r now) sys) =
     outcomes sys @ map (\<lambda>(c, p). (c, outcome)) (filter (\<lambda>(c, p). p = r) (waiters sys))"
proof -
  obtain result w where f: "fetchWithRetry (nets r) u 0 no_traffic = (result, w)"
    by (cases "fetchWithRetry (nets r) u 0 no_traffic")
  show ?thesis
    unfolding step_Settle [where nets = nets and cfg = cfg and now = now, OF assms f]
    by auto
qed

text \<open>
  Claim C1, at the inputs where the code departs from it. Two callers ask for the same
  programme guide, or for the same movie information, while nothing is cached: each call
  starts its own upstream call, two upstream calls for the same key are in flight at once,
  and when the first succeeds and the second fails the two callers receive different
  outcomes. Only \<^verbatim>\<open>getLiveStreams\<close> consults the registry of pending requests: there the
  second caller joins the request of the first, one upstream call is started and both
  receive its outcome.
\<close>

theorem concurrent_calls_start_two_upstream_calls:
  "started (run demo_config (first_then (always (Response 200 (BodyJson (JArr []))))
                                        (always (Response 503 (BodyJson JNull))))
      [Call 7 (EPG ''7'' 24) 0, Call 8 (EPG ''7'' 24) 0] boot)
     = [epg_url demo_config ''7'' 24, epg_url demo_config ''7'' 24]
   \<and> inflight_for (epg_key ''7'' 24)
        (run demo_config (first_then (always (Response 200 (BodyJson (JArr []))))
                                     (always (Response 503 (BodyJson JNull))))
          [Call 7 (EPG ''7'' 24) 0, Call 8 (EPG ''7'' 24) 0] boot) = [0, 1]
   \<and> outcomes (run demo_config (first_then (always (Response 200 (BodyJson (JArr []))))
                                         (always (Response 503 (BodyJson JNull))))
          [Call 7 (EPG ''7'' 24) 0, Call 8 (EPG ''7'' 24) 0, Settle 0 50, Settle 1 8050] boot)
       = [(7, Inr (JArr [])), (8, Inl (HttpError 503))]
   \<and> started (run demo_config (first_then (always (Response 200 (BodyJson (JArr []))))
                                        (always (Response 503 (BodyJson JNull))))
      [Call 7 (MovieInfo ''42'') 0, Call 8 (MovieInfo ''42'') 0] boot)
     = [movie_url demo_config ''42'', movie_url demo_config ''42'']
   \<and> inflight_for (movie_key ''42'')
        (run demo_config (first_then (always (Response 200 (BodyJson (JArr []))))
                                     (always (Response 503 (BodyJson JNull))))
          [Call 7 (MovieInfo ''42'') 0, Call 8 (MovieInfo ''42'') 0] boot) = [0, 1]
   \<and> outcomes (run demo_config (first_then (always (Response 200 (BodyJson (JArr []))))
                                         (always (Response 503 (BodyJson JNull))))
          [Call 7 (MovieInfo ''42'') 0, Call 8 (MovieInfo ''42'') 0, Settle 0 50, Settle 1 8050] boot)
       = [(7, Inr (JArr [])), (8, Inl (HttpError 503))]
   \<and> started (run demo_config (first_then (always (Response 200 (BodyJson (JArr []))))
                                        (always (Response 503 (BodyJson JNull))))
      [Call 7 (LiveStreams None) 0, Call 8 (LiveStreams None) 0] boot)
     = [streams_url demo_config None]
   \<and> outcomes (run demo_config (first_then (always (Response 200 (BodyJson (JArr []))))
                                         (always (Response 503 (BodyJson JNull))))
          [Call 7 (LiveStreams None) 0, Call 8 (LiveStreams None) 0, Settle 0 50] boot)
       = [(7, Inr (JArr [])), (8, Inr (JArr []))]"
  by (simp add: run_Cons run_Nil boot_def new_service_def getEPG_begin_def getMovieInfo_begin_def
        getLiveStreams_begin_def getEPG_settle_def getMovieInfo_settle_def
        getLiveStreams_settle_def cacheGet_def cacheSet_def key_simps inflight_for_def Let_def
        first_then_def fetch_ok_empty fetch_503)




section \<open>Properties of the progress store\<close>

lemma has_key_iff:
  "has_key t i x \<longleftrightarrow>
     \<not> nullish x \<and> strict_eq (field x ''type'') (JStr t) \<and> strict_eq (field x ''id'') i"
  by (simp add: has_key_def same_key_def)

lemma same_key_no_null:
  "\<not> nullish x \<Longrightarrow> same_key t i x = Inr (has_key t i x)"
  by (simp add: has_key_def same_key_def)

lemma strict_eq_JStr: "strict_eq v (JStr s) \<longleftrightarrow> v = JStr s"
  by (cases v) simp_all

lemma strict_eq_JStr': "strict_eq (JStr s) v \<longleftrightarrow> v = JStr s"
  by (cases v) auto

text \<open>findIndex and the splice, on a collection without null items.\<close>

lemma findIndex_no_null:
  assumes "\<forall>x \<in> set xs. \<not> nullish x"
  shows "findIndex (same_key t i) xs =
     Inr (if \<exists>x \<in> set xs. has_key t i x
          then Some (length (takeWhile (\<lambda>x. \<not> has_key t i x) xs)) else None)"
  using assms
  by (induction xs) (auto simp: same_key_no_null)

lemma find_first_no_null:
  assumes "\<forall>x \<in> set xs. \<not> nullish x"
  shows "find_first (same_key t i) xs =
     Inr (case filter (has_key t i) xs of [] \<Rightarrow> JUndefined | y # ys \<Rightarrow> y)"
  using assms
  by (induction xs) (auto simp: same_key_no_null)

lemma splice_first_match:
  assumes "length (filter P xs) \<le> 1" and "n < length xs" and "P (xs ! n)"
  shows "filter P (take n xs @ drop (Suc n) xs) = []"
proof -
  have "xs = take n xs @ xs ! n # drop (Suc n) xs"
    using assms(2) by (rule id_take_nth_drop)
  then have "filter P xs = filter P (take n xs @ xs ! n # drop (Suc n) xs)"
    by simp
  also have "\<dots> = filter P (take n xs) @ xs ! n # filter P (drop (Suc n) xs)"
    using assms(3) by simp
  finally have "length (filter P (take n xs)) + 1 + length (filter P (drop (Suc n) xs)) \<le> 1"
    using assms(1) by simp
  then show ?thesis by simp
qed

lemma first_match_index:
  assumes "\<exists>x \<in> set xs. P x"
  shows "length (takeWhile (\<lambda>x. \<not> P x) xs) < length xs"
    and "P (xs ! length (takeWhile (\<lambda>x. \<not> P x) xs))"
proof -
  show lt: "length (takeWhile (\<lambda>x. \<not> P x) xs) < length xs"
    using assms by (induction xs) auto
  show "P (xs ! length (takeWhile (\<lambda>x. \<not> P x) xs))"
    using nth_length_takeWhile [OF lt] by simp
qed

lemma splice_subset:
  "set (take n xs @ drop (Suc n) xs) \<subseteq> set xs"
  by (auto dest: in_set_takeD in_set_dropD)

lemma filter_drop_snoc:
  assumes "\<forall>x \<in> set ys. \<not> P x" and "P z" and "k \<le> length ys"
  shows "filter P (drop k (ys @ [z])) = [z]"
proof -
  have "\<forall>x \<in> set (drop k ys). \<not> P x"
    using assms(1) by (auto dest: in_set_dropD)
  then have "filter P (drop k ys) = []" by (simp add: filter_empty_conv)
  then show ?thesis using assms(2,3) by simp
qed

text \<open>Serialising and reading back, on the items that pass the validation.\<close>

lemma valid_item_object: "valid_item x \<Longrightarrow> \<exists>fs. x = JObj fs"
  by (cases x) (simp_all add: valid_item_def)

lemma reparse_field:
  assumes "map_of fs name = Some v" and "v \<noteq> JUndefined"
  shows "field (reparse (JObj fs)) name = reparse v"
  using assms
  by (induction fs) (auto split: if_splits)

lemma typeof_string: "typeof v = ''string'' \<longleftrightarrow> (\<exists>s. v = JStr s)"
  by (cases v) simp_all

lemma valid_item_key_fields:
  assumes "valid_item x"
  shows "\<exists>fs t s. x = JObj fs \<and> map_of fs ''type'' = Some (JStr t) \<and> map_of fs ''id'' = Some (JStr s)"
proof -
  obtain fs where x: "x = JObj fs" using assms valid_item_object by blast
  have "\<exists>s. field x ''id'' = JStr s"
    using assms by (simp add: valid_item_def typeof_string)
  moreover have "\<exists>t. field x ''type'' = JStr t"
    using assms by (auto simp: valid_item_def strict_eq_JStr)
  ultimately show ?thesis
    using x by (auto split: option.splits)
qed

lemma reparse_has_key:
  assumes "valid_item x"
  shows "has_key t i (reparse x) \<longleftrightarrow> has_key t i x"
proof -
  obtain fs t' s' where x: "x = JObj fs" and ty: "map_of fs ''type'' = Some (JStr t')"
    and id: "map_of fs ''id'' = Some (JStr s')"
    using valid_item_key_fields [OF assms] by blast
  have "field (reparse x) ''type'' = JStr t'" "field (reparse x) ''id'' = JStr s'"
    using reparse_field [OF ty] reparse_field [OF id] x by simp_all
  moreover have "field x ''type'' = JStr t'" "field x ''id'' = JStr s'"
    using x ty id by simp_all
  moreover have "\<not> nullish x" "\<not> nullish (reparse x)" using x by simp_all
  ultimately show ?thesis by (simp add: has_key_iff)
qed

lemma reparse_not_nullish: "valid_item x \<Longrightarrow> \<not> nullish (reparse x)"
  using valid_item_object by fastforce

lemma reparse_validated:
  "reparse (JArr (filter valid_item xs)) = JArr (map reparse (filter valid_item xs))"
proof -
  have "x \<noteq> JUndefined" if "valid_item x" for x
    using that by (auto simp: valid_item_def)
  then show ?thesis by simp
qed

lemma progress_record_valid:
  assumes "t = ''movie'' \<or> t = ''series''"
  shows "valid_item (progress_record t (JStr s) p d now)"
  using assms by (auto simp: valid_item_def progress_record_def)

lemma progress_record_has_key:
  "has_key t (JStr s) (progress_record t (JStr s) p d now)"
  by (simp add: has_key_iff progress_record_def)

lemma progress_record_reparse:
  "reparse (progress_record t (JStr s) (Fin p) (Fin d) now) =
     progress_record t (JStr s) (Fin p) (Fin d) now"
  by (simp add: progress_record_def)

lemma getAll_written:
  "getAll (st\<lparr>item := Some (Json (JArr xs))\<rparr>) = (if getItem_throws st then [] else xs)"
  by (simp add: getAll_def)

lemma saveAll_array:
  "saveAll st (JArr xs) =
     (if setItem_throws st then (Some StorageFailure, st)
      else (None, st\<lparr>item := Some (Json (JArr (map reparse
              (filter valid_item (drop (length xs - MAX_ENTRIES) xs)))))\<rparr>))"
  by (simp add: saveAll_def Let_def reparse_validated del: reparse.simps)

lemma filter_swap: "filter P (filter Q xs) = filter Q (filter P xs)"
  by (induction xs) simp_all

lemma reparse_key_filter:
  "filter (\<lambda>x. has_key t i (reparse x)) (filter valid_item zs) =
     filter (has_key t i) (filter valid_item zs)"
  by (rule filter_cong) (simp_all add: reparse_has_key del: reparse.simps)

lemma reparse_validated_not_nullish:
  "\<forall>x \<in> set (map reparse (filter valid_item zs)). \<not> nullish x"
  by (auto simp: reparse_not_nullish simp del: reparse.simps)

text \<open>One save on a medium that can be read and written and holds no null item and at
  most one record for the key: afterwards the medium holds exactly the new record for it.\<close>

lemma saveProgress_replaces:
  assumes rd: "\<not> getItem_throws st" and wr: "\<not> setItem_throws st"
    and nn: "\<forall>x \<in> set (getAll st). \<not> nullish x"
    and uniq: "length (filter (has_key t (JStr s)) (getAll st)) \<le> 1"
    and kind: "t = ''movie'' \<or> t = ''series''"
  shows "\<exists>st'. saveProgress st now t (JStr s) (JNum (Fin p)) (JNum (Fin d)) = (None, st')
     \<and> \<not> getItem_throws st' \<and> \<not> setItem_throws st'
     \<and> (\<forall>x \<in> set (getAll st'). \<not> nullish x)
     \<and> filter (has_key t (JStr s)) (getAll st') =
         [progress_record t (JStr s) (Fin (max 0 p)) (Fin (max 0 d)) now]"
proof -
  let ?P = "has_key t (JStr s)"
  let ?xs = "getAll st"
  let ?n = "length (takeWhile (\<lambda>x. \<not> ?P x) ?xs)"
  let ?rec = "progress_record t (JStr s) (Fin (max 0 p)) (Fin (max 0 d)) now"
  define removed where
    "removed = (if \<exists>x \<in> set ?xs. ?P x then take ?n ?xs @ drop (Suc ?n) ?xs else ?xs)"
  have clean: "\<forall>x \<in> set removed. \<not> ?P x"
  proof (cases "\<exists>x \<in> set ?xs. ?P x")
    case True
    have r: "removed = take ?n ?xs @ drop (Suc ?n) ?xs"
      unfolding removed_def using True by (simp only: if_True)
    have "filter ?P removed = []"
      unfolding r using uniq first_match_index [OF True] by (rule splice_first_match)
    then show ?thesis by (simp only: filter_empty_conv)
  next
    case False
    have r: "removed = ?xs"
      unfolding removed_def using False by (simp only: if_False)
    show ?thesis unfolding r using False by blast
  qed
  define zs where "zs = drop (length (removed @ [?rec]) - MAX_ENTRIES) (removed @ [?rec])"
  let ?st' = "st\<lparr>item := Some (Json (JArr (map reparse (filter valid_item zs))))\<rparr>"
  have fi: "findIndex (same_key t (JStr s)) ?xs =
      Inr (if \<exists>x \<in> set ?xs. ?P x then Some ?n else None)"
    by (rule findIndex_no_null [OF nn])
  have pushed: "saveProgress st now t (JStr s) (JNum (Fin p)) (JNum (Fin d)) =
      saveAll st (JArr (removed @ [?rec]))"
    by (simp add: saveProgress_def fi removed_def Let_def del: reparse.simps)
  have save: "saveProgress st now t (JStr s) (JNum (Fin p)) (JNum (Fin d)) = (None, ?st')"
    unfolding pushed saveAll_array zs_def using wr by (simp only: if_False)
  have all: "getAll ?st' = map reparse (filter valid_item zs)"
    using rd by (simp only: getAll_written if_False)
  have one: "filter ?P zs = [?rec]"
    unfolding zs_def
    using clean progress_record_has_key
    by (rule filter_drop_snoc) (simp add: MAX_ENTRIES_def)
  have "filter ?P (map reparse (filter valid_item zs)) =
      map reparse (filter (\<lambda>x. ?P (reparse x)) (filter valid_item zs))"
    by (simp only: filter_map comp_def)
  also have "\<dots> = map reparse (filter ?P (filter valid_item zs))"
    by (simp only: reparse_key_filter)
  also have "\<dots> = map reparse (filter valid_item (filter ?P zs))"
    by (simp only: filter_swap)
  also have "\<dots> = map reparse [?rec]"
    unfolding one using progress_record_valid [OF kind, of s "Fin (max 0 p)" "Fin (max 0 d)" now]
    by simp
  also have "\<dots> = [?rec]"
    by (simp only: list.map progress_record_reparse)
  finally have rec: "filter ?P (getAll ?st') = [?rec]"
    unfolding all .
  have nn': "\<forall>x \<in> set (getAll ?st'). \<not> nullish x"
    unfolding all by (rule reparse_validated_not_nullish)
  have flags: "\<not> getItem_throws ?st'" "\<not> setItem_throws ?st'"
    using rd wr by simp_all
  show ?thesis
    using save rec nn' flags by blast
qed

lemma getProgress_of_record:
  assumes "\<not> getItem_throws st" and "\<forall>x \<in> set (getAll st). \<not> nullish x"
    and "filter (has_key t (JStr s)) (getAll st) = [progress_record t (JStr s) (Fin p) d now]"
    and "s \<noteq> []"
  shows "getProgress conv st t (JStr s) = Inr (Fin (max 0 p))"
  using assms
  by (simp add: getProgress_def getProgress_try_def find_first_no_null progress_record_def)

text \<open>
  Claim C8. On a medium that can be read and written, holds no \<^verbatim>\<open>null\<close> item and holds at
  most one record for the key, saving a position for a movie or a series under a non-empty
  id and then asking for it returns that position (clamped at 0); saving again for the same
  key makes the same query return the second position, and the collection then holds
  exactly one record for the key, the second one with its own position, duration and time:
  the record is replaced, nothing is accumulated or merged. The witness is the claim's own
  scenario: 120 then 200 for movie 42, on an empty medium.
\<close>

theorem progress_round_trip:
  assumes "\<not> getItem_throws st" and "\<not> setItem_throws st"
    and "\<forall>x \<in> set (getAll st). \<not> nullish x"
    and "length (filter (has_key t (JStr s)) (getAll st)) \<le> 1"
    and "t = ''movie'' \<or> t = ''series''" and "s \<noteq> []"
  shows "\<exists>st_a st_b.
      saveProgress st now_a t (JStr s) (JNum (Fin p_a)) (JNum (Fin d_a)) = (None, st_a)
    \<and> getProgress conv st_a t (JStr s) = Inr (Fin (max 0 p_a))
    \<and> saveProgress st_a now_b t (JStr s) (JNum (Fin p_b)) (JNum (Fin d_b)) = (None, st_b)
    \<and> getProgress conv st_b t (JStr s) = Inr (Fin (max 0 p_b))
    \<and> filter (has_key t (JStr s)) (getAll st_b) =
        [progress_record t (JStr s) (Fin (max 0 p_b)) (Fin (max 0 d_b)) now_b]"
proof -
  obtain st_a where a: "saveProgress st now_a t (JStr s) (JNum (Fin p_a)) (JNum (Fin d_a)) = (None, st_a)"
    and a_rd: "\<not> getItem_throws st_a" and a_wr: "\<not> setItem_throws st_a"
    and a_nn: "\<forall>x \<in> set (getAll st_a). \<not> nullish x"
    and a_rec: "filter (has_key t (JStr s)) (getAll st_a) =
         [progress_record t (JStr s) (Fin (max 0 p_a)) (Fin (max 0 d_a)) now_a]"
    using saveProgress_replaces [OF assms(1-5), of now_a p_a d_a] by blast
  have a_uniq: "length (filter (has_key t (JStr s)) (getAll st_a)) \<le> 1"
    unfolding a_rec by simp
  obtain st_b where b: "saveProgress st_a now_b t (JStr s) (JNum (Fin p_b)) (JNum (Fin d_b)) = (None, st_b)"
    and b_rd: "\<not> getItem_throws st_b"
    and b_nn: "\<forall>x \<in> set (getAll st_b). \<not> nullish x"
    and b_rec: "filter (has_key t (JStr s)) (getAll st_b) =
         [progress_record t (JStr s) (Fin (max 0 p_b)) (Fin (max 0 d_b)) now_b]"
    using saveProgress_replaces [OF a_rd a_wr a_nn a_uniq assms(5), of now_b p_b d_b] by blast
  have "getProgress conv st_a t (JStr s) = Inr (Fin (max 0 (max 0 p_a)))"
    using a_rd a_nn a_rec assms(6) by (rule getProgress_of_record)
  moreover have "getProgress conv st_b t (JStr s) = Inr (Fin (max 0 (max 0 p_b)))"
    using b_rd b_nn b_rec assms(6) by (rule getProgress_of_record)
  ultimately show ?thesis
    using a b b_rec by simp
qed

theorem progress_round_trip_witness:
  "getProgress unconvertible
      (snd (saveProgress empty_storage 1000 ''movie'' (JStr ''42'') (JNum (Fin 120)) (JNum (Fin 3600))))
      ''movie'' (JStr ''42'') = Inr (Fin 120)
   \<and> getProgress unconvertible
      (snd (saveProgress
         (snd (saveProgress empty_storage 1000 ''movie'' (JStr ''42'') (JNum (Fin 120)) (JNum (Fin 3600))))
         2000 ''movie'' (JStr ''42'') (JNum (Fin 200)) (JNum (Fin 3600))))
      ''movie'' (JStr ''42'') = Inr (Fin 200)"
proof -
  have h: "\<not> getItem_throws empty_storage" "\<not> setItem_throws empty_storage"
    "\<forall>x \<in> set (getAll empty_storage). \<not> nullish x"
    "length (filter (has_key ''movie'' (JStr ''42'')) (getAll empty_storage)) \<le> 1"
    "''movie'' = ''movie'' \<or> ''movie'' = ''series''" "''42'' \<noteq> []"
    by (simp_all add: empty_storage_def getAll_def)
  obtain st_a st_b where
      "saveProgress empty_storage 1000 ''movie'' (JStr ''42'') (JNum (Fin 120)) (JNum (Fin 3600)) = (None, st_a)"
      "getProgress unconvertible st_a ''movie'' (JStr ''42'') = Inr (Fin (max 0 120))"
      "saveProgress st_a 2000 ''movie'' (JStr ''42'') (JNum (Fin 200)) (JNum (Fin 3600)) = (None, st_b)"
      "getProgress unconvertible st_b ''movie'' (JStr ''42'') = Inr (Fin (max 0 200))"
    using progress_round_trip [OF h, of 1000 120 3600 unconvertible 2000 200 3600] by blast
  then show ?thesis by simp
qed

text \<open>
  Claim C9, at the input where the code departs from it. \<^verbatim>\<open>NaN\<close> is a number for
  \<^verbatim>\<open>typeof\<close> and \<^verbatim>\<open>Math.max(0, NaN)\<close> is \<^verbatim>\<open>NaN\<close>: a save with duration \<^verbatim>\<open>NaN\<close> (the
  duration of a video whose metadata is not loaded yet) is accepted, the record passes the
  validation of \<^verbatim>\<open>saveAll\<close>, and what is stored as its duration is \<^verbatim>\<open>null\<close>: not a number
  that is at least 0.
\<close>

theorem saveProgress_stores_NaN:
  "Math_max0 NaN = NaN
   \<and> saveProgress empty_storage 1000 ''movie'' (JStr ''42'') (JNum (Fin 10)) (JNum NaN) =
     (None, empty_storage\<lparr>item := Some (Json (JArr
        [JObj [(''type'', JStr ''movie''), (''id'', JStr ''42''), (''position'', JNum (Fin 10)),
               (''duration'', JNull), (''timestamp'', JNum (Fin 1000))]]))\<rparr>)"
  by (simp add: saveProgress_def saveAll_def getAll_def empty_storage_def progress_record_def
        valid_item_def MAX_ENTRIES_def Let_def)

text \<open>
  A collection with a malformed item (here a record whose position is a string, and which
  has no duration and no time) is not rejected by \<^verbatim>\<open>saveAll\<close>: no error is thrown, the
  malformed item is left out and the rest is written.
\<close>

theorem saveAll_drops_malformed_item:
  "saveAll empty_storage (JArr
      [progress_record ''movie'' (JStr ''1'') (Fin 5) (Fin 9) 1,
       JObj [(''type'', JStr ''movie''), (''id'', JStr ''2''), (''position'', JStr ''soon'')]])
   = (None, empty_storage\<lparr>item := Some (Json (JArr
        [progress_record ''movie'' (JStr ''1'') (Fin 5) (Fin 9) 1]))\<rparr>)"
  by (simp add: saveAll_def empty_storage_def progress_record_def valid_item_def MAX_ENTRIES_def
        Let_def)

text \<open>
  Claim C7, as the code has it. A write keeps the last \<^verbatim>\<open>MAX_ENTRIES\<close> items of the
  collection, leaves out every item that fails the validation and stores the others, at
  most \<^verbatim>\<open>MAX_ENTRIES\<close> of them, as they serialise; no error is thrown for the items left
  out. An error is thrown, and the medium is left as it was, only when the write to the
  medium itself throws or when the argument is not an array.
\<close>

theorem saveAll_commits_valid_items:
  "(\<not> setItem_throws st \<longrightarrow>
      fst (saveAll st (JArr xs)) = None
      \<and> item (snd (saveAll st (JArr xs))) =
          Some (Json (JArr (map reparse (filter valid_item (drop (length xs - MAX_ENTRIES) xs)))))
      \<and> length (filter valid_item (drop (length xs - MAX_ENTRIES) xs)) \<le> MAX_ENTRIES)
   \<and> (setItem_throws st \<longrightarrow> saveAll st (JArr xs) = (Some StorageFailure, st))
   \<and> ((\<forall>ys. v \<noteq> JArr ys) \<longrightarrow> saveAll st v = (Some (Error ''Invalid data format''), st))"
proof -
  have "length (filter valid_item (drop (length xs - MAX_ENTRIES) xs)) \<le> length (drop (length xs - MAX_ENTRIES) xs)"
    by (rule length_filter_le)
  then have len: "length (filter valid_item (drop (length xs - MAX_ENTRIES) xs)) \<le> MAX_ENTRIES"
    by simp
  have other: "saveAll st v = (Some (Error ''Invalid data format''), st)" if "\<forall>ys. v \<noteq> JArr ys"
    using that by (cases v) (simp_all add: saveAll_def)
  show ?thesis
    using len other by (simp add: saveAll_array del: reparse.simps)
qed

theorem saveAll_commits_valid_items_witness:
  "saveAll empty_storage (JArr [JNum (Fin 5), progress_record ''series'' (JStr ''9'') (Fin 1) NaN 7])
     = (None, empty_storage\<lparr>item := Some (Json (JArr
          [JObj [(''type'', JStr ''series''), (''id'', JStr ''9''), (''position'', JNum (Fin 1)),
                 (''duration'', JNull), (''timestamp'', JNum (Fin 7))]]))\<rparr>)
   \<and> saveAll full_storage (JArr [progress_record ''series'' (JStr ''9'') (Fin 1) (Fin 2) 7])
     = (Some StorageFailure, full_storage)
   \<and> saveAll empty_storage JNull = (Some (Error ''Invalid data format''), empty_storage)"
proof -
  have a: "\<not> setItem_throws empty_storage" by (simp add: empty_storage_def)
  have b: "setItem_throws full_storage" by (simp add: full_storage_def)
  have c: "\<forall>ys. JNull \<noteq> JArr ys" by simp
  have p: "saveAll empty_storage (JArr xs) =
      (fst (saveAll empty_storage (JArr xs)),
       empty_storage\<lparr>item := item (snd (saveAll empty_storage (JArr xs)))\<rparr>)" for xs
    by (simp add: saveAll_def Let_def empty_storage_def)
  show ?thesis
    using a b c
      saveAll_commits_valid_items [of empty_storage
        "[JNum (Fin 5), progress_record ''series'' (JStr ''9'') (Fin 1) NaN 7]" JNull]
      saveAll_commits_valid_items [of full_storage
        "[progress_record ''series'' (JStr ''9'') (Fin 1) (Fin 2) 7]" JNull]
    by (subst p) (simp add: progress_record_def valid_item_def MAX_ENTRIES_def)
qed

lemma find_first_absent:
  assumes "\<forall>x \<in> set xs. \<not> has_key t i x"
  shows "(\<exists>e. find_first (same_key t i) xs = Inl e) \<or> find_first (same_key t i) xs = Inr JUndefined"
  using assms
proof (induction xs)
  case Nil
  then show ?case by simp
next
  case (Cons x xs)
  show ?case
  proof (cases "nullish x")
    case True
    then show ?thesis by (simp add: same_key_def)
  next
    case False
    then have "same_key t i x = Inr False"
      using Cons.prems by (simp add: same_key_no_null)
    moreover have "(\<exists>e. find_first (same_key t i) xs = Inl e) \<or> find_first (same_key t i) xs = Inr JUndefined"
      using Cons.IH Cons.prems by simp
    ultimately show ?thesis by simp
  qed
qed

lemma getProgress_total: "\<exists>n. getProgress conv st t i = Inr n"
  by (simp add: getProgress_def split: sum.splits)

lemma getProgress_absent:
  assumes "\<forall>x \<in> set (getAll st). \<not> has_key t i x"
  shows "getProgress conv st t i = Inr (Fin 0)"
  using find_first_absent [OF assms]
  by (auto simp: getProgress_def getProgress_try_def split: sum.splits)

lemma getAll_unreadable:
  assumes "getItem_throws st \<or> item st = None \<or> (\<exists>txt. item st = Some (NotJson txt))
           \<or> (\<exists>v. item st = Some (Json v) \<and> (\<forall>xs. v \<noteq> JArr xs))"
  shows "getAll st = []"
  using assms by (auto simp: getAll_def split: jsval.splits)

text \<open>
  What does hold of \<^verbatim>\<open>getWatchProgress\<close>: it returns a number for every medium, kind and
  id, and no exception leaves it. The number is 0 when the medium cannot be read, holds
  nothing, holds a text that is not JSON or a value that is not an array; when no item of
  the collection is a record for the key (also when a \<^verbatim>\<open>null\<close> item makes the search
  throw); and when the id is empty or not a string.
\<close>

lemma getWatchProgress_no_exception:
  "(\<exists>n. getWatchProgress conv st t i = Inr n)
   \<and> (getItem_throws st \<or> item st = None \<or> (\<exists>txt. item st = Some (NotJson txt))
        \<or> (\<exists>v. item st = Some (Json v) \<and> (\<forall>xs. v \<noteq> JArr xs))
      \<longrightarrow> getWatchProgress conv st t i = Inr (Fin 0))
   \<and> ((\<forall>x \<in> set (getAll st). \<not> has_key t i x)
      \<longrightarrow> getWatchProgress conv st t i = Inr (Fin 0))
   \<and> (\<not> truthy i \<or> typeof i \<noteq> ''string'' \<longrightarrow> getWatchProgress conv st t i = Inr (Fin 0))"
proof (intro conjI impI)
  show "\<exists>n. getWatchProgress conv st t i = Inr n"
    unfolding getWatchProgress_def by (rule getProgress_total)
next
  assume "getItem_throws st \<or> item st = None \<or> (\<exists>txt. item st = Some (NotJson txt))
        \<or> (\<exists>v. item st = Some (Json v) \<and> (\<forall>xs. v \<noteq> JArr xs))"
  then have "getAll st = []" by (rule getAll_unreadable)
  then have "\<forall>x \<in> set (getAll st). \<not> has_key t i x" by simp
  then show "getWatchProgress conv st t i = Inr (Fin 0)"
    unfolding getWatchProgress_def by (rule getProgress_absent)
next
  assume "\<forall>x \<in> set (getAll st). \<not> has_key t i x"
  then show "getWatchProgress conv st t i = Inr (Fin 0)"
    unfolding getWatchProgress_def by (rule getProgress_absent)
next
  assume "\<not> truthy i \<or> typeof i \<noteq> ''string''"
  then show "getWatchProgress conv st t i = Inr (Fin 0)"
    by (auto simp: getWatchProgress_def getProgress_def getProgress_try_def)
qed

lemma getWatchProgress_no_exception_examples:
  "getWatchProgress unconvertible unreadable_storage ''movie'' (JStr ''42'') = Inr (Fin 0)
   \<and> getWatchProgress unconvertible (empty_storage\<lparr>item := Some (NotJson ''{'')\<rparr>) ''movie'' (JStr ''42'') = Inr (Fin 0)
   \<and> getWatchProgress unconvertible one_movie ''series'' (JStr ''42'') = Inr (Fin 0)
   \<and> getWatchProgress unconvertible one_movie ''movie'' (JStr '''') = Inr (Fin 0)"
proof -
  have a: "getItem_throws unreadable_storage" by (simp add: unreadable_storage_def)
  have b: "\<exists>txt. item (empty_storage\<lparr>item := Some (NotJson ''{'')\<rparr>) = Some (NotJson txt)" by simp
  have c: "\<forall>x \<in> set (getAll one_movie). \<not> has_key ''series'' (JStr ''42'') x"
    by (simp add: one_movie_def getAll_def has_key_iff progress_record_def)
  have d: "\<not> truthy (JStr '''')" by simp
  show ?thesis
    using a b c d
      getWatchProgress_no_exception [of unconvertible unreadable_storage "''movie''" "JStr ''42''"]
      getWatchProgress_no_exception [of unconvertible "empty_storage\<lparr>item := Some (NotJson ''{'')\<rparr>" "''movie''" "JStr ''42''"]
      getWatchProgress_no_exception [of unconvertible one_movie "''series''" "JStr ''42''"]
      getWatchProgress_no_exception [of unconvertible one_movie "''movie''" "JStr ''''"]
    by blast
qed

text \<open>
  Claim C10, at the input where the code departs from it. The medium holds a record for
  the key that has no position (malformed data that \<^verbatim>\<open>getAll\<close> lets through, since it
  only tests for an array). \<^verbatim>\<open>find\<close> returns the record, \<^verbatim>\<open>entry.position\<close> is
  \<^verbatim>\<open>undefined\<close> and \<^verbatim>\<open>Math.max(0, undefined)\<close> is \<^verbatim>\<open>NaN\<close>: what is returned is
  \<^verbatim>\<open>NaN\<close>, neither a position nor 0.
\<close>

theorem getWatchProgress_returns_NaN:
  "getWatchProgress conv no_position ''movie'' (JStr ''42'') = Inr NaN"
  by (simp add: getWatchProgress_def getProgress_def getProgress_try_def getAll_def
        no_position_def same_key_def)

end
